theory Spec2Isabelle
  imports Complex_Main "HOL-Library.Sublist"
begin

section \<open>Python string primitives\<close>

text \<open>
  Strings are lists of characters. The model covers ASCII text: \<open>str.lower\<close> maps
  \<open>A\<close>..\<open>Z\<close> to \<open>a\<close>..\<open>z\<close> and leaves every other character alone, the
  whitespace of \<open>str.strip\<close> and of the regular expression class \<open>\s\<close> is the ASCII
  whitespace of Python (codes 9 to 13, 28 to 31 and 32), and the class \<open>\d\<close> is
  \<open>0\<close>..\<open>9\<close>.
\<close>

definition is_upper :: "char \<Rightarrow> bool" where
  "is_upper c = (65 \<le> (of_char c :: nat) \<and> (of_char c :: nat) \<le> 90)"

definition is_digit :: "char \<Rightarrow> bool" where
  "is_digit c = (48 \<le> (of_char c :: nat) \<and> (of_char c :: nat) \<le> 57)"

definition is_space :: "char \<Rightarrow> bool" where
  "is_space c = ((9 \<le> (of_char c :: nat) \<and> (of_char c :: nat) \<le> 13)
                 \<or> (28 \<le> (of_char c :: nat) \<and> (of_char c :: nat) \<le> 32))"

definition lower_char :: "char \<Rightarrow> char" where
  "lower_char c = (if is_upper c then char_of ((of_char c :: nat) + 32) else c)"

definition py_lower :: "string \<Rightarrow> string" where
  "py_lower s = map lower_char s"

definition py_strip :: "string \<Rightarrow> string" where
  "py_strip s = rev (dropWhile is_space (rev (dropWhile is_space s)))"

text \<open>\<open>starts_with s p\<close> is \<open>s.startswith(p)\<close>; \<open>contains s t\<close> is Python's \<open>t in s\<close>.\<close>

fun starts_with :: "string \<Rightarrow> string \<Rightarrow> bool" where
  "starts_with s [] = True"
| "starts_with [] (p # ps) = False"
| "starts_with (c # cs) (p # ps) = (c = p \<and> starts_with cs ps)"

fun contains :: "string \<Rightarrow> string \<Rightarrow> bool" where
  "contains [] t = (t = [])"
| "contains (c # cs) t = (starts_with (c # cs) t \<or> contains cs t)"

text \<open>\<open>py_join sep xs\<close> is \<open>sep.join(xs)\<close>.\<close>

fun py_join :: "string \<Rightarrow> string list \<Rightarrow> string" where
  "py_join sep [] = []"
| "py_join sep [x] = x"
| "py_join sep (x # y # ys) = x @ sep @ py_join sep (y # ys)"

text \<open>
  \<open>py_int\<close> is \<open>int\<close> on a string of decimal digits (the only strings the code
  converts, since they come from the group \<open>(\d+)\<close>), as an unbounded number;
  \<open>py_str\<close> is \<open>str\<close> on a non-negative integer, as the f-strings format one.
\<close>

definition digit_val :: "char \<Rightarrow> nat" where
  "digit_val c = (of_char c :: nat) - 48"

definition py_int :: "string \<Rightarrow> nat" where
  "py_int s = foldl (\<lambda>acc c. 10 * acc + digit_val c) 0 s"

definition digit_char :: "nat \<Rightarrow> char" where
  "digit_char d = char_of (48 + d)"

fun py_str :: "nat \<Rightarrow> string" where
  "py_str n = (if n < 10 then [digit_char n] else py_str (n div 10) @ [digit_char (n mod 10)])"

text \<open>\<open>is_digits s\<close>: a non-empty string of decimal digits, what the group \<open>(\d+)\<close> captures.\<close>

definition is_digits :: "string \<Rightarrow> bool" where
  "is_digits s = (s \<noteq> [] \<and> list_all is_digit s)"

text \<open>
  \<open>py_replace s old new\<close> is \<open>s.replace(old, new)\<close>: every occurrence of \<open>old\<close>,
  found from the left without overlap, is replaced; an empty \<open>old\<close> puts \<open>new\<close> before
  every character and at the end.
\<close>

fun replace_scan :: "string \<Rightarrow> string \<Rightarrow> string \<Rightarrow> string" where
  "replace_scan [] old new = []"
| "replace_scan (c # cs) old new =
    (if starts_with (c # cs) old then new @ replace_scan (drop (length old - 1) cs) old new
     else c # replace_scan cs old new)"

definition py_replace :: "string \<Rightarrow> string \<Rightarrow> string \<Rightarrow> string" where
  "py_replace s old new =
    (if old = [] then new @ concat (map (\<lambda>c. c # new) s) else replace_scan s old new)"

text \<open>
  \<open>re_findall m s\<close> is \<open>re.findall\<close> for a pattern whose matcher at the start of a
  string is \<open>m\<close>: \<open>m s\<close> is \<open>None\<close> when the pattern does not match at the start of
  \<open>s\<close> and otherwise the captured groups with the length of the match. The scan tries
  every position from the left and resumes after a match.
\<close>

fun re_findall :: "(string \<Rightarrow> ('g \<times> nat) option) \<Rightarrow> string \<Rightarrow> 'g list" where
  "re_findall m [] = []"
| "re_findall m (c # cs) =
    (case m (c # cs) of
       Some (g, n) \<Rightarrow> g # re_findall m (drop (n - 1) cs)
     | None \<Rightarrow> re_findall m cs)"

text \<open>
  The pattern \<open>\[Source (\d+)\]\<close>. The greedy run of digits is the only choice that can be
  followed by the closing bracket.
\<close>

definition match_citation :: "string \<Rightarrow> (string \<times> nat) option" where
  "match_citation s =
    (if starts_with s ''[Source '' then
       (let r = drop 8 s; ds = takeWhile is_digit r
        in if ds \<noteq> [] \<and> starts_with (dropWhile is_digit r) '']''
           then Some (ds, 8 + length ds + 1) else None)
     else None)"

text \<open>
  The pattern \<open>Rs\.?\s*(\d+(?:,\d+)*)\s*(Lakhs?|Crores?|lakh|crore)\<close> under IGNORECASE.
  Each greedy choice is the only one that can lead to a match: a shorter run of whitespace
  or digits, or one comma group fewer, leaves a character that the rest of the pattern
  cannot start with. \<open>comma_groups\<close> is \<open>(?:,\d+)*\<close> and returns the text matched and
  the rest; \<open>match_unit\<close> tries the four alternatives in their order.
\<close>

function comma_groups :: "string \<Rightarrow> string \<times> string" where
  "comma_groups [] = ([], [])"
| "comma_groups (c # r) =
    (if c = CHR '','' \<and> takeWhile is_digit r \<noteq> []
     then (let (g, rest) = comma_groups (dropWhile is_digit r)
           in (c # takeWhile is_digit r @ g, rest))
     else ([], c # r))"
  by pat_completeness auto
termination
  by (relation "measure length") (auto simp: length_dropWhile_le less_Suc_eq_le)

definition match_unit :: "string \<Rightarrow> string option" where
  "match_unit s =
    (let l = py_lower s in
     if starts_with l ''lakh'' then Some (take (if starts_with (drop 4 l) ''s'' then 5 else 4) s)
     else if starts_with l ''crore''
       then Some (take (if starts_with (drop 5 l) ''s'' then 6 else 5) s)
     else if starts_with l ''lakh'' then Some (take 4 s)
     else if starts_with l ''crore'' then Some (take 5 s)
     else None)"

definition match_amount :: "string \<Rightarrow> ((string \<times> string) \<times> nat) option" where
  "match_amount s =
    (if starts_with (py_lower s) ''rs'' then
       (let s1 = drop 2 s;
            s2 = (if starts_with s1 ''.'' then drop 1 s1 else s1);
            s3 = dropWhile is_space s2;
            d = takeWhile is_digit s3
        in if d = [] then None
           else (let (g, s4) = comma_groups (dropWhile is_digit s3);
                     s5 = dropWhile is_space s4
                 in (case match_unit s5 of
                       None \<Rightarrow> None
                     | Some u \<Rightarrow> Some ((d @ g, u), length s - length s5 + length u))))
     else None)"

section \<open>Query router (unified\_rag.py, classify\_query)\<close>

datatype query_class = SMALL_TALK | CAPABILITY | GRAPH | FAQ | SEMANTIC

definition chitchat_triggers :: "string list" where
  "chitchat_triggers =
    [''hi'', ''hello'', ''hey'', ''good morning'', ''good evening'',
     ''how are you'', ''how r u'', ''how is it going'', ''whats up'',
     ''who are you'', ''what is your name'', ''are you human'', ''you are smart'',
     ''thank you'', ''thanks'', ''cool'', ''ok'', ''bye'', ''goodbye'']"

definition graph_keywords :: "string list" where
  "graph_keywords =
    [''list of'', ''which investors'', ''which sectors'', ''how many'', ''relationships'']"

definition faq_keywords :: "string list" where
  "faq_keywords = [''maximum grant'', ''eligible'', ''interest rate'', ''tenure'']"

definition classify_query :: "string \<Rightarrow> query_class" where
  "classify_query query =
    (let q = py_strip (py_lower query) in
     if q \<in> set chitchat_triggers
        \<or> (length q < 30 \<and> list_ex (contains q) chitchat_triggers)
     then SMALL_TALK
     else if contains q ''what can you do'' \<or> contains q ''help me'' then CAPABILITY
     else if list_ex (contains q) graph_keywords then GRAPH
     else if list_ex (contains q) faq_keywords then FAQ
     else SEMANTIC)"

text \<open>
  The router as the specification words it: an ordered list of (predicate, class) pairs
  over the lowercased, trimmed text, the first pair whose predicate holds giving the class,
  and SEMANTIC when none does.
\<close>

definition small_talk_rule :: "string \<Rightarrow> bool" where
  "small_talk_rule q =
    (q \<in> set chitchat_triggers
     \<or> (length q < 30 \<and> (\<exists>t \<in> set chitchat_triggers. sublist t q)))"

definition capability_rule :: "string \<Rightarrow> bool" where
  "capability_rule q = (sublist ''what can you do'' q \<or> sublist ''help me'' q)"

definition graph_rule :: "string \<Rightarrow> bool" where
  "graph_rule q = (\<exists>k \<in> set graph_keywords. sublist k q)"

definition faq_rule :: "string \<Rightarrow> bool" where
  "faq_rule q = (\<exists>k \<in> set faq_keywords. sublist k q)"

fun first_match :: "((string \<Rightarrow> bool) \<times> query_class) list \<Rightarrow> string \<Rightarrow> query_class" where
  "first_match [] q = SEMANTIC"
| "first_match ((p, c) # rules) q = (if p q then c else first_match rules q)"

definition intent_rules :: "((string \<Rightarrow> bool) \<times> query_class) list" where
  "intent_rules =
    [(small_talk_rule, SMALL_TALK), (capability_rule, CAPABILITY),
     (graph_rule, GRAPH), (faq_rule, FAQ), (\<lambda>q. True, SEMANTIC)]"

section \<open>Answer verifier (verify\_answer.py)\<close>

text \<open>
  A chunk of the evidence store. The field \<open>canonicals\<close> is \<open>None\<close> where the
  dictionary is missing or empty and has no key \<open>amount_surface\<close>.
\<close>

record canonicals =
  amount_surface :: string
  amount_number :: int
  currency :: string

record chunk =
  chunk_id :: string
  filename :: string
  page :: nat
  chunk_text :: string
  canonicals :: "canonicals option"

text \<open>
  A source as the orchestrator passes it: the normalised dictionary around a chunk, with
  the keys \<open>text\<close>, \<open>chunk\<close>, \<open>filename\<close> and \<open>page\<close> (the other keys repeat
  these values). The page is the chunk's page number, or the string \<open>"1"\<close> in its place.
\<close>

datatype page_value = PageNum nat | PageStr string

record source =
  src_text :: string
  src_chunk :: chunk
  src_filename :: string
  src_page :: page_value

record verdict =
  verified :: bool
  reason :: string

text \<open>
  \<open>verify_answer\<close>: the loop over the sources only builds a string that is never read,
  and no layer check is called.
\<close>

definition context_text :: "source list \<Rightarrow> string" where
  "context_text sources = foldl (\<lambda>acc item. acc @ chunk_text (src_chunk item) @ '' '') [] sources"

definition verify_answer :: "string \<Rightarrow> source list \<Rightarrow> string \<Rightarrow> verdict" where
  "verify_answer answer sources source_type =
    (if sources = [] then \<lparr>verified = False, reason = ''No sources provided''\<rparr>
     else (let ctx = context_text sources
           in \<lparr>verified = True, reason = ''Verification passed''\<rparr>))"

text \<open>
  Layer 1, \<open>verify_numeric\<close>. The report's \<open>info\<close> is present only on the early
  return, which has no other key than \<open>passed\<close> and \<open>issues\<close>; the lists the early
  return does not build are empty here.
\<close>

record numeric_report =
  num_passed :: bool
  num_issues :: "string list"
  num_info :: "string option"
  num_answer_amounts :: "string list"
  num_canonical_amounts :: "string list"

definition numeric_issue :: "string \<times> string \<Rightarrow> string" where
  "numeric_issue a =
    ''Amount '' @ [CHR 0x27] @ ''Rs. '' @ fst a @ '' '' @ snd a @ [CHR 0x27]
      @ '' not verified in sources''"

definition source_canonicals :: "source list \<Rightarrow> string list" where
  "source_canonicals sources =
    concat (map (\<lambda>source. case canonicals (src_chunk source) of
                             Some c \<Rightarrow> [amount_surface c] | None \<Rightarrow> []) sources)"

definition sources_text :: "source list \<Rightarrow> string" where
  "sources_text sources = py_join '' '' (map (\<lambda>s. chunk_text (src_chunk s)) sources)"

definition amount_found :: "string list \<Rightarrow> string \<Rightarrow> string \<Rightarrow> bool" where
  "amount_found canonical_amounts source_text amount =
    (list_ex (\<lambda>canon. contains canon amount) canonical_amounts
     \<or> contains source_text amount)"

definition verify_numeric :: "string \<Rightarrow> source list \<Rightarrow> numeric_report" where
  "verify_numeric answer sources =
    (let amounts = re_findall match_amount answer in
     if amounts = []
     then \<lparr>num_passed = True, num_issues = [], num_info = Some ''No amounts to verify'',
           num_answer_amounts = [], num_canonical_amounts = []\<rparr>
     else (let canonical_amounts = source_canonicals sources;
               source_text = sources_text sources;
               issues = concat (map (\<lambda>a. if \<not> amount_found canonical_amounts source_text (fst a)
                                          then [numeric_issue a] else []) amounts)
           in \<lparr>num_passed = (length issues = 0), num_issues = issues, num_info = None,
                num_answer_amounts = map (\<lambda>a. fst a @ '' '' @ snd a) amounts,
                num_canonical_amounts = canonical_amounts\<rparr>))"

text \<open>
  Layer 2, \<open>verify_citations\<close>. The early return has the keys \<open>passed\<close>, \<open>issues\<close>
  and \<open>info\<close> only; the two counts it does not build are 0 here.
\<close>

record citation_report =
  cit_passed :: bool
  cit_issues :: "string list"
  cit_info :: "string option"
  citations_found :: nat
  total_sources :: nat

definition citation_issue :: "nat \<Rightarrow> string \<Rightarrow> string" where
  "citation_issue max_source cite_num =
    ''Invalid citation [Source '' @ cite_num @ ''] - only '' @ py_str max_source
      @ '' sources available''"

definition verify_citations :: "string \<Rightarrow> source list \<Rightarrow> citation_report" where
  "verify_citations answer sources =
    (let citations = re_findall match_citation answer in
     if citations = []
     then \<lparr>cit_passed = True, cit_issues = [], cit_info = Some ''No citations (FAQ answer)'',
           citations_found = 0, total_sources = 0\<rparr>
     else (let max_source = length sources;
               issues = concat (map (\<lambda>cite_num.
                          if py_int cite_num > max_source \<or> py_int cite_num < 1
                          then [citation_issue max_source cite_num] else []) citations)
           in \<lparr>cit_passed = (length issues = 0), cit_issues = issues, cit_info = None,
                citations_found = length (remdups citations), total_sources = max_source\<rparr>))"

section \<open>Citation repair (answer\_question.py, generate\_answer)\<close>

text \<open>
  The citation safety check that \<open>generate_answer\<close> runs on the stripped text the
  language model returned: the citations are collected once, from the text as it came,
  and each one above the number of sources is replaced throughout the current text.
\<close>

definition citation_marker :: "string \<Rightarrow> string" where
  "citation_marker cite = ''[Source '' @ cite @ '']''"

text \<open>The body of the loop, for one citation.\<close>

definition repair_step :: "nat \<Rightarrow> string \<Rightarrow> string \<Rightarrow> string" where
  "repair_step num_sources answer cite =
    (if py_int cite > num_sources
     then py_replace answer (citation_marker cite) (citation_marker (py_str num_sources))
     else answer)"

definition citation_safety_check :: "string \<Rightarrow> nat \<Rightarrow> string" where
  "citation_safety_check answer num_sources =
    foldl (repair_step num_sources) answer (re_findall match_citation answer)"

section \<open>Retrieval (test\_retrieval.py, hybrid\_search; unified\_rag.py, retrieve\_documents)\<close>

datatype py_error = IndexError | KeyError | ValueError

text \<open>\<open>py_index xs i\<close> is \<open>xs[i]\<close> on a Python list: a negative index counts from the end.\<close>

definition py_index :: "'a list \<Rightarrow> int \<Rightarrow> py_error + 'a" where
  "py_index xs i =
    (if 0 \<le> i \<and> i < int (length xs) then Inr (xs ! nat i)
     else if i < 0 \<and> - int (length xs) \<le> i then Inr (xs ! nat (int (length xs) + i))
     else Inl IndexError)"

text \<open>
  The dense index and the embedding model are outside the repository. A search of the
  index for the embedded query is a parameter: \<open>search n\<close> is the list of (label,
  score) pairs that \<open>index.search(query_vector, n)\<close> returns for the query, best first,
  that is \<open>zip(I[0], D[0])\<close>. The BM25 index is outside the repository too:
  \<open>bm25_scores\<close> is the array \<open>bm25.get_scores(tokenized_query)\<close>, one score for each
  chunk of the store. Scores are real numbers; the rounding of floating-point arithmetic
  is not modelled.
\<close>

type_synonym dense_search = "nat \<Rightarrow> (int \<times> real) list"

text \<open>
  The dictionary \<open>results\<close>, in insertion order. \<open>dict_add r k v\<close> is
  \<open>r[k] = r.get(k, 0) + v\<close>.
\<close>

fun dict_add :: "(string \<times> real) list \<Rightarrow> string \<Rightarrow> real \<Rightarrow> (string \<times> real) list" where
  "dict_add [] k v = [(k, 0 + v)]"
| "dict_add ((k', w) # r) k v =
    (if k' = k then (k', w + v) # r else (k', w) # dict_add r k v)"

fun add_dense ::
  "string list \<Rightarrow> (int \<times> real) list \<Rightarrow> (string \<times> real) list
     \<Rightarrow> py_error + (string \<times> real) list" where
  "add_dense chunk_ids [] results = Inr results"
| "add_dense chunk_ids ((idx, score) # rest) results =
    (case py_index chunk_ids idx of
       Inl e \<Rightarrow> Inl e
     | Inr cid \<Rightarrow> add_dense chunk_ids rest (dict_add results cid (score * 0.6)))"

text \<open>
  \<open>np.argsort\<close>, ascending; equal scores are kept in index order here (the order numpy
  gives equal scores is not fixed by its default sort, and no claim depends on it).
  \<open>bm25_top_indices\<close> is \<open>np.argsort(bm25_scores)[-top_k*2:][::-1]\<close>; the slice
  \<open>[-0:]\<close> is the whole array.
\<close>

definition argsort :: "real list \<Rightarrow> nat list" where
  "argsort xs = map snd (sort_key fst (zip xs [0..<length xs]))"

definition bm25_top_indices :: "real list \<Rightarrow> nat \<Rightarrow> nat list" where
  "bm25_top_indices bm25_scores top_k =
    (let a = argsort bm25_scores; n = top_k * 2
     in rev (if n = 0 then a else drop (length a - n) a))"

text \<open>\<open>max(bm25_scores) if max(bm25_scores) > 0 else 1.0\<close>; \<open>max\<close> of no score raises.\<close>

definition max_bm25 :: "real list \<Rightarrow> py_error + real" where
  "max_bm25 bm25_scores =
    (case bm25_scores of
       [] \<Rightarrow> Inl ValueError
     | x # xs \<Rightarrow> (let m = fold max xs x in if m > 0 then Inr m else Inr 1.0))"

fun add_sparse ::
  "string list \<Rightarrow> real list \<Rightarrow> real \<Rightarrow> nat list \<Rightarrow> (string \<times> real) list
     \<Rightarrow> py_error + (string \<times> real) list" where
  "add_sparse chunk_ids bm25_scores mx [] results = Inr results"
| "add_sparse chunk_ids bm25_scores mx (idx # rest) results =
    (case py_index chunk_ids (int idx) of
       Inl e \<Rightarrow> Inl e
     | Inr cid \<Rightarrow>
         add_sparse chunk_ids bm25_scores mx rest
           (dict_add results cid (bm25_scores ! idx / mx * 0.4)))"

text \<open>
  For stating what the loops add up: \<open>dict_get r k\<close> is \<open>r.get(k, 0)\<close>;
  \<open>dense_scores_of chunk_ids cands c\<close> are the dense scores of the candidates whose
  label is resolved to the chunk id \<open>c\<close>, and \<open>sparse_scores_of\<close> the BM25 scores of
  the sparse candidates resolved to \<open>c\<close>.
\<close>

definition dict_get :: "(string \<times> real) list \<Rightarrow> string \<Rightarrow> real" where
  "dict_get r k = (case map_of r k of Some v \<Rightarrow> v | None \<Rightarrow> 0)"

definition dense_scores_of :: "string list \<Rightarrow> (int \<times> real) list \<Rightarrow> string \<Rightarrow> real list" where
  "dense_scores_of chunk_ids cands c =
    map snd (filter (\<lambda>p. py_index chunk_ids (fst p) = Inr c) cands)"

definition sparse_scores_of :: "string list \<Rightarrow> real list \<Rightarrow> nat list \<Rightarrow> string \<Rightarrow> real list" where
  "sparse_scores_of chunk_ids bm25_scores idxs c =
    map (\<lambda>i. bm25_scores ! i) (filter (\<lambda>i. py_index chunk_ids (int i) = Inr c) idxs)"

text \<open>The dictionary \<open>results\<close> after the two loops of \<open>hybrid_search\<close>.\<close>

definition fused_scores ::
  "dense_search \<Rightarrow> real list \<Rightarrow> string list \<Rightarrow> nat \<Rightarrow> py_error + (string \<times> real) list" where
  "fused_scores search bm25_scores chunk_ids top_k =
    (case add_dense chunk_ids (search (top_k * 2)) [] of
       Inl e \<Rightarrow> Inl e
     | Inr results \<Rightarrow>
         (case max_bm25 bm25_scores of
            Inl e \<Rightarrow> Inl e
          | Inr mx \<Rightarrow>
              add_sparse chunk_ids bm25_scores mx (bm25_top_indices bm25_scores top_k) results))"

text \<open>
  \<open>chunk_lookup\<close> is the dictionary \<open>{c['chunk_id']: c for c in chunks}\<close>: of two chunks
  with one id the later one stays.
\<close>

definition chunk_lookup :: "chunk list \<Rightarrow> string \<Rightarrow> chunk option" where
  "chunk_lookup chunks = map_of (rev (map (\<lambda>c. (chunk_id c, c)) chunks))"

record retrieval_result =
  res_chunk :: chunk
  res_score :: real

fun lookup_results ::
  "(string \<Rightarrow> chunk option) \<Rightarrow> (string \<times> real) list \<Rightarrow> py_error + retrieval_result list" where
  "lookup_results lookup [] = Inr []"
| "lookup_results lookup ((cid, score) # rest) =
    (case lookup cid of
       None \<Rightarrow> Inl KeyError
     | Some c \<Rightarrow>
         (case lookup_results lookup rest of
            Inl e \<Rightarrow> Inl e
          | Inr rs \<Rightarrow> Inr (\<lparr>res_chunk = c, res_score = score\<rparr> # rs)))"

text \<open>
  \<open>sorted(results.items(), key=lambda x: x[1], reverse=True)[:top_k]\<close>: a stable sort,
  so entries with equal scores stay in insertion order.
\<close>

definition sorted_results :: "(string \<times> real) list \<Rightarrow> nat \<Rightarrow> (string \<times> real) list" where
  "sorted_results results top_k = take top_k (sort_key (\<lambda>x. - snd x) results)"

definition hybrid_search ::
  "dense_search \<Rightarrow> real list \<Rightarrow> string list \<Rightarrow> chunk list \<Rightarrow> nat
     \<Rightarrow> py_error + retrieval_result list" where
  "hybrid_search search bm25_scores chunk_ids chunks top_k =
    (case fused_scores search bm25_scores chunk_ids top_k of
       Inl e \<Rightarrow> Inl e
     | Inr results \<Rightarrow> lookup_results (chunk_lookup chunks) (sorted_results results top_k))"

text \<open>
  \<open>retrieve_documents\<close> of the orchestrator: a search of the dense index for \<open>k\<close>
  candidates, and the normalised chunk at every label below the number of chunks. The
  chunks of the store are flat records without the keys \<open>chunk\<close>, \<open>source\<close> and
  \<open>content\<close>, so the fallbacks of the normalisation are the chunk itself, the name
  "Unknown Document" for an empty file name, and the string "1" for the page 0. The
  orchestrator's \<open>answer\<close> calls it with the default \<open>k = 5\<close> and passes the result to
  \<open>generate_answer\<close> and to \<open>verify_answer\<close>.
\<close>

definition normalized_chunk :: "chunk \<Rightarrow> source" where
  "normalized_chunk data =
    \<lparr>src_text = chunk_text data,
     src_chunk = data,
     src_filename = (if filename data \<noteq> [] then filename data else ''Unknown Document''),
     src_page = (if page data \<noteq> 0 then PageNum (page data) else PageStr ''1'')\<rparr>"

fun collect_documents :: "chunk list \<Rightarrow> int list \<Rightarrow> py_error + source list" where
  "collect_documents chunks [] = Inr []"
| "collect_documents chunks (idx # rest) =
    (if idx < int (length chunks) then
       (case py_index chunks idx of
          Inl e \<Rightarrow> Inl e
        | Inr raw_chunk \<Rightarrow>
            (case collect_documents chunks rest of
               Inl e \<Rightarrow> Inl e
             | Inr results \<Rightarrow> Inr (normalized_chunk raw_chunk # results)))
     else collect_documents chunks rest)"

definition retrieve_documents :: "dense_search \<Rightarrow> chunk list \<Rightarrow> nat \<Rightarrow> py_error + source list" where
  "retrieve_documents search chunks k = collect_documents chunks (map fst (search k))"

section \<open>Example data\<close>

text \<open>
  A source around a chunk with the given text and, when given, the canonical amount as it
  is written in the text.
\<close>

definition source_of_text :: "string \<Rightarrow> string option \<Rightarrow> source" where
  "source_of_text t surface =
    \<lparr>src_text = t,
     src_chunk = \<lparr>chunk_id = ''c1'', filename = ''guidelines.pdf'', page = 1,
                  chunk_text = t,
                  canonicals = map_option (\<lambda>s. \<lparr>amount_surface = s, amount_number = 0,
                                                 currency = ''INR''\<rparr>) surface\<rparr>,
     src_filename = ''guidelines.pdf'', src_page = PageNum 1\<rparr>"

definition three_sources :: "source list" where
  "three_sources =
    [source_of_text ''Seed fund guidelines.'' None,
     source_of_text ''Grant of up to Rs. 20 Lakhs for validation.'' (Some ''Rs. 20 Lakhs''),
     source_of_text ''The scheme was launched in 2020.'' None]"

text \<open>
  A store of two chunks, a dense ranking that puts the first chunk first, and BM25 scores
  that favour the second chunk.
\<close>

definition store_chunk :: "string \<Rightarrow> string \<Rightarrow> chunk" where
  "store_chunk cid t =
    \<lparr>chunk_id = cid, filename = ''guidelines.pdf'', page = 1, chunk_text = t,
     canonicals = None\<rparr>"

definition two_chunks :: "chunk list" where
  "two_chunks = [store_chunk ''a1'' ''Seed fund guidelines.'',
                 store_chunk ''b2'' ''Investors in fintech.'']"

definition two_dense :: dense_search where
  "two_dense n = take n [(0, 0.9), (1, 0.8)]"

definition two_bm25 :: "real list" where
  "two_bm25 = [0, 5]"

text \<open>
  The same dense ranking from an index that holds the two vectors only: a search for more
  candidates fills the list with the label \<open>-1\<close> and the lowest single-precision score.
\<close>

definition two_dense_padded :: dense_search where
  "two_dense_padded n =
    take n ([(0, 0.9), (1, 0.8)]
            @ replicate n (- 1, - 340282346638528859811704183484516925440))"

text \<open>An id list in which the two chunks of the store have one id.\<close>

definition same_ids :: "string list" where
  "same_ids = [''a1'', ''a1'']"

section \<open>Helper lemmas\<close>

lemma starts_with_prefix: "starts_with s p \<longleftrightarrow> prefix p s"
  by (induction s p rule: starts_with.induct) auto

lemma contains_sublist: "contains s t \<longleftrightarrow> sublist t s"
  by (induction s) (auto simp: starts_with_prefix sublist_Cons_right)

lemma list_ex_contains: "list_ex (contains q) ts \<longleftrightarrow> (\<exists>t \<in> set ts. sublist t q)"
  by (simp add: list_ex_iff contains_sublist)

lemma short_trigger_small_talk:
  assumes "length (py_strip (py_lower query)) < 30" "t \<in> set chitchat_triggers"
    "contains (py_strip (py_lower query)) t"
  shows "classify_query query = SMALL_TALK"
proof -
  have "list_ex (contains (py_strip (py_lower query))) chitchat_triggers"
    using assms(2,3) by (auto simp: list_ex_iff)
  with assms(1) show ?thesis by (simp add: classify_query_def Let_def)
qed

lemma concat_map_if: "concat (map (\<lambda>x. if P x then [f x] else []) xs) = map f (filter P xs)"
  by (induction xs) auto

lemma amount_found_sublist:
  "amount_found cs txt amount \<longleftrightarrow> (\<exists>canon \<in> set cs. sublist amount canon) \<or> sublist amount txt"
  by (simp add: amount_found_def list_ex_iff contains_sublist)

lemma verify_numeric_issues:
  "num_issues (verify_numeric answer sources) =
     map numeric_issue
       (filter (\<lambda>a. \<not> amount_found (source_canonicals sources) (sources_text sources) (fst a))
          (re_findall match_amount answer))"
  by (simp add: verify_numeric_def Let_def concat_map_if)

lemma verify_numeric_passed:
  "num_passed (verify_numeric answer sources)
     \<longleftrightarrow> num_issues (verify_numeric answer sources) = []"
  by (simp add: verify_numeric_def Let_def)

lemma verify_numeric_passed_iff:
  "num_passed (verify_numeric answer sources) \<longleftrightarrow>
     (\<forall>a \<in> set (re_findall match_amount answer).
        amount_found (source_canonicals sources) (sources_text sources) (fst a))"
  by (simp add: verify_numeric_passed verify_numeric_issues filter_empty_conv)

lemma verify_citations_issues:
  "cit_issues (verify_citations answer sources) =
     map (citation_issue (length sources))
       (filter (\<lambda>c. length sources < py_int c \<or> py_int c < 1)
          (re_findall match_citation answer))"
  by (simp add: verify_citations_def Let_def concat_map_if)

lemma verify_citations_passed:
  "cit_passed (verify_citations answer sources)
     \<longleftrightarrow> cit_issues (verify_citations answer sources) = []"
  by (simp add: verify_citations_def Let_def)

lemma verify_citations_passed_iff:
  "cit_passed (verify_citations answer sources) \<longleftrightarrow>
     (\<forall>c \<in> set (re_findall match_citation answer). 1 \<le> py_int c \<and> py_int c \<le> length sources)"
  by (auto simp add: verify_citations_passed verify_citations_issues filter_empty_conv)

lemma dict_add_keys: "fst ` set (dict_add r k v) = insert k (fst ` set r)"
  by (induction r k v rule: dict_add.induct) auto

lemma dict_add_distinct: "distinct (map fst r) \<Longrightarrow> distinct (map fst (dict_add r k v))"
  by (induction r k v rule: dict_add.induct) (auto simp: dict_add_keys)

lemma dict_get_add:
  "dict_get (dict_add r k v) c = (if c = k then dict_get r k + v else dict_get r c)"
  by (induction r k v rule: dict_add.induct) (auto simp: dict_get_def)

lemma map_of_dict_get: "c \<in> fst ` set r \<Longrightarrow> map_of r c = Some (dict_get r c)"
  by (auto simp: dict_get_def map_of_eq_None_iff split: option.splits)

lemma add_dense_get:
  "add_dense chunk_ids cands r = Inr r' \<Longrightarrow>
     dict_get r' c = dict_get r c
        + sum_list (map (\<lambda>d. d * 0.6) (dense_scores_of chunk_ids cands c))
     \<and> (c \<in> fst ` set r' \<longleftrightarrow> c \<in> fst ` set r \<or> dense_scores_of chunk_ids cands c \<noteq> [])
     \<and> (distinct (map fst r) \<longrightarrow> distinct (map fst r'))"
proof (induction chunk_ids cands r rule: add_dense.induct)
  case (1 chunk_ids results)
  then show ?case by (simp add: dense_scores_of_def)
next
  case (2 chunk_ids idx score rest results)
  from "2.prems" obtain cid where cid: "py_index chunk_ids idx = Inr cid"
    and rest: "add_dense chunk_ids rest (dict_add results cid (score * 0.6)) = Inr r'"
    by (auto split: sum.splits)
  from "2.IH" [OF cid rest] show ?case
    by (auto simp: cid dict_get_add dict_add_keys dict_add_distinct dense_scores_of_def)
qed

lemma add_sparse_get:
  "add_sparse chunk_ids bm25_scores mx idxs r = Inr r' \<Longrightarrow>
     dict_get r' c = dict_get r c
        + sum_list (map (\<lambda>s. s / mx * 0.4) (sparse_scores_of chunk_ids bm25_scores idxs c))
     \<and> (c \<in> fst ` set r'
          \<longleftrightarrow> c \<in> fst ` set r \<or> sparse_scores_of chunk_ids bm25_scores idxs c \<noteq> [])
     \<and> (distinct (map fst r) \<longrightarrow> distinct (map fst r'))"
proof (induction chunk_ids bm25_scores mx idxs r rule: add_sparse.induct)
  case (1 chunk_ids bm25_scores mx results)
  then show ?case by (simp add: sparse_scores_of_def)
next
  case (2 chunk_ids bm25_scores mx idx rest results)
  from "2.prems" obtain cid where cid: "py_index chunk_ids (int idx) = Inr cid"
    and rest: "add_sparse chunk_ids bm25_scores mx rest
                 (dict_add results cid (bm25_scores ! idx / mx * 0.4)) = Inr r'"
    by (auto split: sum.splits)
  from "2.IH" [OF cid rest] show ?case
    by (auto simp: cid dict_get_add dict_add_keys dict_add_distinct sparse_scores_of_def)
qed

lemma fold_max_eq: "fold max xs (x::real) = Max (set (x # xs))"
  by (rule Max.set_eq_fold [symmetric])

lemma max_bm25_value:
  "bm25_scores \<noteq> [] \<Longrightarrow>
     max_bm25 bm25_scores
       = Inr (if 0 < Max (set bm25_scores) then Max (set bm25_scores) else 1)"
  by (cases bm25_scores) (simp_all add: max_bm25_def fold_max_eq Let_def del: set_simps)

lemma fused_scores_get:
  assumes "fused_scores search bm25_scores chunk_ids top_k = Inr results"
  defines "mx \<equiv> (if 0 < Max (set bm25_scores) then Max (set bm25_scores) else 1)"
  defines "ds \<equiv> dense_scores_of chunk_ids (search (top_k * 2))"
  defines "ss \<equiv> sparse_scores_of chunk_ids bm25_scores (bm25_top_indices bm25_scores top_k)"
  shows "max_bm25 bm25_scores = Inr mx"
    and "dict_get results c
           = sum_list (map (\<lambda>d. d * 0.6) (ds c)) + sum_list (map (\<lambda>s. s / mx * 0.4) (ss c))"
    and "c \<in> fst ` set results \<longleftrightarrow> ds c \<noteq> [] \<or> ss c \<noteq> []"
    and "distinct (map fst results)"
proof -
  from assms(1) obtain r1 m where r1: "add_dense chunk_ids (search (top_k * 2)) [] = Inr r1"
    and m: "max_bm25 bm25_scores = Inr m"
    and r2: "add_sparse chunk_ids bm25_scores m (bm25_top_indices bm25_scores top_k) r1
               = Inr results"
    by (auto simp: fused_scores_def split: sum.splits)
  from m have "bm25_scores \<noteq> []" by (auto simp: max_bm25_def)
  with m have mm: "m = mx" by (simp add: max_bm25_value mx_def)
  show "max_bm25 bm25_scores = Inr mx" using m mm by simp
  note d = add_dense_get [OF r1]
  note s = add_sparse_get [OF r2]
  show "dict_get results c
          = sum_list (map (\<lambda>d. d * 0.6) (ds c)) + sum_list (map (\<lambda>s. s / mx * 0.4) (ss c))"
    using d [of c] s [of c] by (simp add: mm ds_def ss_def dict_get_def)
  show "c \<in> fst ` set results \<longleftrightarrow> ds c \<noteq> [] \<or> ss c \<noteq> []"
    using d [of c] s [of c] by (simp add: ds_def ss_def)
  show "distinct (map fst results)"
    using d [of c] s [of c] by simp
qed

lemma lookup_results_mem:
  "lookup_results lookup xs = Inr out \<Longrightarrow> r \<in> set out \<Longrightarrow>
     \<exists>cid. (cid, res_score r) \<in> set xs \<and> lookup cid = Some (res_chunk r)"
proof (induction lookup xs arbitrary: out rule: lookup_results.induct)
  case (1 lookup)
  then show ?case by simp
next
  case (2 lookup cid score rest)
  then show ?case by (fastforce split: option.splits sum.splits)
qed

lemma chunk_lookup_id: "chunk_lookup chunks cid = Some c \<Longrightarrow> chunk_id c = cid"
  by (auto simp: chunk_lookup_def dest!: map_of_SomeD)


lemma collect_documents_chunks:
  "collect_documents chunks labels = Inr rs \<Longrightarrow>
     rs = map (\<lambda>i. normalized_chunk (chunks ! nat (if i < 0 then int (length chunks) + i else i)))
            (filter (\<lambda>i. i < int (length chunks)) labels)"
proof (induction chunks labels arbitrary: rs rule: collect_documents.induct)
  case (1 chunks)
  then show ?case by simp
next
  case (2 chunks idx rest)
  show ?case
  proof (cases "idx < int (length chunks)")
    case True
    with "2.prems" obtain raw rs' where raw: "py_index chunks idx = Inr raw"
      and rest: "collect_documents chunks rest = Inr rs'" and rs: "rs = normalized_chunk raw # rs'"
      by (auto split: sum.splits)
    from raw have "raw = chunks ! nat (if idx < 0 then int (length chunks) + idx else idx)"
      by (auto simp: py_index_def Let_def split: if_splits)
    with "2.IH"(1) [OF True raw rest] rs True show ?thesis by simp
  next
    case False
    with "2.prems" "2.IH"(2) show ?thesis by simp
  qed
qed

lemma collect_documents_returns:
  "(\<forall>i \<in> set labels. - int (length chunks) \<le> i) \<Longrightarrow> \<exists>rs. collect_documents chunks labels = Inr rs"
proof (induction labels)
  case Nil
  then show ?case by simp
next
  case (Cons idx rest)
  then obtain rs where rs: "collect_documents chunks rest = Inr rs" by auto
  from Cons.prems have lo: "- int (length chunks) \<le> idx" by simp
  show ?case
  proof (cases "idx < int (length chunks)")
    case True
    with lo have "\<exists>raw. py_index chunks idx = Inr raw"
      by (simp add: py_index_def Let_def)
    then obtain raw where "py_index chunks idx = Inr raw" ..
    with True rs show ?thesis by simp
  next
    case False
    with rs show ?thesis by simp
  qed
qed



lemma normalized_chunk_chunk: "src_chunk (normalized_chunk c) = c"
  by (simp add: normalized_chunk_def)







lemma not_digit_bracket: "\<not> is_digit (CHR '']'')"
  by (simp add: is_digit_def)

lemma takeWhile_digits: "list_all is_digit ds \<Longrightarrow> takeWhile is_digit (ds @ CHR '']'' # rest) = ds"
  by (induction ds) (auto simp: not_digit_bracket)

lemma dropWhile_digits: "list_all is_digit ds \<Longrightarrow> dropWhile is_digit (ds @ CHR '']'' # rest) = CHR '']'' # rest"
  by (induction ds) (auto simp: not_digit_bracket)

lemma match_citation_marker:
  "is_digits ds \<Longrightarrow> match_citation (citation_marker ds @ rest) = Some (ds, length ds + 9)"
  by (simp add: match_citation_def citation_marker_def is_digits_def takeWhile_digits dropWhile_digits)

lemma match_citation_SomeD:
  assumes "match_citation s = Some (ds, n)"
  shows "is_digits ds \<and> n = length ds + 9 \<and> s = citation_marker ds @ drop n s"
proof -
  from assms have p: "prefix ''[Source '' s"
    by (auto simp: match_citation_def starts_with_prefix split: if_splits)
  then obtain r where s: "s = ''[Source '' @ r" by (auto simp: prefix_def)
  then have r: "drop 8 s = r" by simp
  from assms p have ds: "ds = takeWhile is_digit r" and ne: "ds \<noteq> []"
    and br: "prefix '']'' (dropWhile is_digit r)" and n: "n = length ds + 9"
    by (auto simp: match_citation_def starts_with_prefix r Let_def split: if_splits)
  from br obtain t where t: "dropWhile is_digit r = CHR '']'' # t" by (auto simp: prefix_def)
  have "r = ds @ CHR '']'' # t"
    using takeWhile_dropWhile_id [of is_digit r] ds t by simp
  with s have s': "s = citation_marker ds @ t" by (simp add: citation_marker_def)
  have "length (citation_marker ds) = n" by (simp add: citation_marker_def n)
  then have "drop n (citation_marker ds @ t) = t" by simp
  with s' have "s = citation_marker ds @ drop n s" by simp
  moreover have "is_digits ds"
    using ne ds by (auto simp: is_digits_def list_all_iff dest: set_takeWhileD)
  ultimately show ?thesis using n by blast
qed

lemma re_findall_marker:
  "is_digits ds \<Longrightarrow>
     re_findall match_citation (citation_marker ds @ rest) = ds # re_findall match_citation rest"
proof -
  assume d: "is_digits ds"
  have c: "citation_marker ds @ rest = CHR ''['' # (''Source '' @ ds @ '']'' @ rest)"
    by (simp add: citation_marker_def)
  have "length (''Source '' @ ds @ '']'') = length ds + 9 - 1" by simp
  then have "drop (length ds + 9 - 1) ((''Source '' @ ds @ '']'') @ rest) = rest"
    by (metis append_eq_conv_conj)
  then have "drop (length ds + 9 - 1) (''Source '' @ ds @ '']'' @ rest) = rest"
    by (simp only: append_assoc)
  then show ?thesis
    using match_citation_marker [OF d, of rest] unfolding c by simp
qed

lemma re_findall_digits: "c \<in> set (re_findall match_citation s) \<Longrightarrow> is_digits c"
proof (induction match_citation s arbitrary: c rule: re_findall.induct)
  case 1
  then show ?case by simp
next
  case (2 x xs)
  show ?case
  proof (cases "match_citation (x # xs)")
    case None
    with 2 show ?thesis by simp
  next
    case (Some p)
    obtain g n where p: "p = (g, n)" by (cases p)
    with Some match_citation_SomeD have "is_digits g" by blast
    with 2 Some p show ?thesis by auto
  qed
qed


lemma replace_scan_old:
  assumes "old \<noteq> []"
  shows "replace_scan (old @ rest) old new = new @ replace_scan rest old new"
proof -
  from assms obtain x o' where old: "old = x # o'" by (cases old) auto
  have "starts_with (x # o' @ rest) (x # o')" by (simp add: starts_with_prefix)
  then show ?thesis by (simp add: old)
qed

lemma replace_scan_skip:
  assumes "CHR ''['' \<notin> set p" "old = CHR ''['' # o'"
  shows "replace_scan (p @ rest) old new = p @ replace_scan rest old new"
  using assms by (induction p) auto

lemma replace_scan_skip_Cons:
  assumes "\<not> prefix old (x # p @ rest)" "CHR ''['' \<notin> set p" "old = CHR ''['' # o'"
  shows "replace_scan (x # p @ rest) old new = x # p @ replace_scan rest old new"
proof -
  have "\<not> starts_with (x # p @ rest) old"
    using assms(1) unfolding starts_with_prefix .
  then have "replace_scan (x # p @ rest) old new = x # replace_scan (p @ rest) old new"
    by (simp only: replace_scan.simps if_False)
  with replace_scan_skip [OF assms(2,3)] show ?thesis by simp
qed

lemma digits_no_bracket: "list_all is_digit c \<Longrightarrow> CHR ''['' \<notin> set c"
  by (auto simp: list_all_iff is_digit_def)

lemma marker_Cons: "citation_marker c = CHR ''['' # (''Source '' @ c @ '']'')"
  by (simp add: citation_marker_def)

lemma marker_body_no_bracket: "is_digits c \<Longrightarrow> CHR ''['' \<notin> set (''Source '' @ c @ '']'')"
  using digits_no_bracket [of c] by (simp add: is_digits_def)

lemma marker_prefix_eq:
  assumes "is_digits c" "is_digits c'" "prefix (citation_marker c) (citation_marker c' @ rest)"
  shows "c = c'"
proof -
  from assms(3) obtain t where "citation_marker c' @ rest = citation_marker c @ t"
    by (auto simp: prefix_def)
  then have "c' @ CHR '']'' # rest = c @ CHR '']'' # t" by (simp add: citation_marker_def)
  then have "takeWhile is_digit (c' @ CHR '']'' # rest) = takeWhile is_digit (c @ CHR '']'' # t)"
    by simp
  with assms(1,2) show ?thesis by (simp add: takeWhile_digits is_digits_def)
qed

lemma replace_scan_other_marker:
  assumes "is_digits c" "is_digits c'" "c' \<noteq> c"
  shows "replace_scan (citation_marker c' @ rest) (citation_marker c) new
           = citation_marker c' @ replace_scan rest (citation_marker c) new"
proof -
  have "\<not> prefix (citation_marker c) (citation_marker c' @ rest)"
    using marker_prefix_eq assms by blast
  then have np: "\<not> prefix (citation_marker c) (CHR ''['' # (''Source '' @ c' @ '']'') @ rest)"
    by (simp add: marker_Cons)
  from replace_scan_skip_Cons [OF np marker_body_no_bracket [OF assms(2)] marker_Cons]
  show ?thesis by (simp add: marker_Cons)
qed

lemma replace_scan_takeWhile:
  "old = CHR ''['' # o' \<Longrightarrow> new = CHR ''['' # n' \<Longrightarrow>
     takeWhile (\<lambda>ch. ch \<noteq> CHR ''['') (replace_scan xs old new)
       = takeWhile (\<lambda>ch. ch \<noteq> CHR ''['') xs"
proof (induction xs old new rule: replace_scan.induct)
  case (1 old new)
  then show ?case by simp
next
  case (2 c cs old new)
  show ?case
  proof (cases "starts_with (c # cs) old")
    case True
    with "2.prems" have "c = CHR ''[''" by simp
    with True "2.prems" show ?thesis by simp
  next
    case False
    with "2.IH"(2) "2.prems" show ?thesis by simp
  qed
qed

lemma no_bracket_prefix:
  assumes "takeWhile (\<lambda>ch. ch \<noteq> CHR ''['') ys = takeWhile (\<lambda>ch. ch \<noteq> CHR ''['') xs"
    and "ys = p @ r" and "CHR ''['' \<notin> set p"
  shows "\<exists>r'. xs = p @ r'"
proof -
  have "takeWhile (\<lambda>ch. ch \<noteq> CHR ''['') (p @ r) = p @ takeWhile (\<lambda>ch. ch \<noteq> CHR ''['') r"
    using assms(3) by (intro takeWhile_append2) auto
  with assms(1,2) have "takeWhile (\<lambda>ch. ch \<noteq> CHR ''['') xs = p @ takeWhile (\<lambda>ch. ch \<noteq> CHR ''['') r"
    by simp
  then have "xs = (p @ takeWhile (\<lambda>ch. ch \<noteq> CHR ''['') r) @ dropWhile (\<lambda>ch. ch \<noteq> CHR ''['') xs"
    using takeWhile_dropWhile_id [of "\<lambda>ch. ch \<noteq> CHR ''[''" xs] by simp
  then show ?thesis by (metis append_assoc)
qed

lemma match_citation_prefix:
  assumes "is_digits c" "prefix (citation_marker c) s"
  shows "match_citation s \<noteq> None"
proof -
  from assms(2) obtain t where "s = citation_marker c @ t" by (auto simp: prefix_def)
  with match_citation_marker [OF assms(1), of t] show ?thesis by simp
qed

lemma match_citation_None_replace:
  assumes "match_citation (x # xs) = None" "is_digits c" "is_digits d"
  shows "match_citation (x # replace_scan xs (citation_marker c) (citation_marker d)) = None"
proof (rule ccontr)
  let ?ys = "replace_scan xs (citation_marker c) (citation_marker d)"
  assume "match_citation (x # ?ys) \<noteq> None"
  then obtain e n where m: "match_citation (x # ?ys) = Some (e, n)" by auto
  from match_citation_SomeD [OF m] obtain r where e: "is_digits e"
    and eq: "x # ?ys = citation_marker e @ r" by blast
  from eq have x: "x = CHR ''[''" and ys: "?ys = (''Source '' @ e @ '']'') @ r"
    by (simp_all add: marker_Cons)
  from no_bracket_prefix [OF replace_scan_takeWhile [OF marker_Cons marker_Cons] ys
      marker_body_no_bracket [OF e]]
  obtain r' where "xs = (''Source '' @ e @ '']'') @ r'" by blast
  with x have "x # xs = citation_marker e @ r'" by (simp add: marker_Cons)
  with match_citation_marker [OF e, of r'] assms(1) show False by simp
qed

lemma re_findall_replace_scan:
  assumes "is_digits c" "is_digits d"
  shows "re_findall match_citation (replace_scan s (citation_marker c) (citation_marker d))
           = map (\<lambda>x. if x = c then d else x) (re_findall match_citation s)"
proof (induction "length s" arbitrary: s rule: less_induct)
  case less
  let ?old = "citation_marker c" and ?new = "citation_marker d"
  show ?case
  proof (cases s)
    case Nil
    then show ?thesis by simp
  next
    case (Cons x xs)
    show ?thesis
    proof (cases "match_citation s")
      case None
      have "\<not> starts_with (x # xs) ?old"
        using match_citation_prefix [OF assms(1), of s] None Cons
        by (auto simp only: starts_with_prefix)
      then have r: "replace_scan s ?old ?new = x # replace_scan xs ?old ?new"
        by (simp only: Cons replace_scan.simps if_False)
      have "match_citation (x # replace_scan xs ?old ?new) = None"
        using match_citation_None_replace [OF _ assms] None Cons by simp
      then have "re_findall match_citation (replace_scan s ?old ?new)
                   = re_findall match_citation (replace_scan xs ?old ?new)"
        by (simp add: r)
      also have "\<dots> = map (\<lambda>x. if x = c then d else x) (re_findall match_citation xs)"
        using less [of xs] Cons by simp
      also have "re_findall match_citation xs = re_findall match_citation s"
        using None Cons by simp
      finally show ?thesis .
    next
      case (Some p)
      obtain e n where p: "p = (e, n)" by (cases p)
      from match_citation_SomeD [of s e n] Some p
      obtain rest where e: "is_digits e" and s: "s = citation_marker e @ rest"
        by auto
      have len: "length rest < length s" by (subst s) (simp add: marker_Cons)
      have fs: "re_findall match_citation s = e # re_findall match_citation rest"
        by (subst s) (rule re_findall_marker [OF e])
      have ih: "re_findall match_citation (replace_scan rest ?old ?new)
                  = map (\<lambda>x. if x = c then d else x) (re_findall match_citation rest)"
        by (rule less [OF len])
      show ?thesis
      proof (cases "e = c")
        case True
        have ne: "?old \<noteq> []" by (simp add: marker_Cons)
        have "replace_scan s ?old ?new = ?new @ replace_scan rest ?old ?new"
          by (subst s) (simp only: True replace_scan_old [OF ne])
        then have "re_findall match_citation (replace_scan s ?old ?new)
                     = d # re_findall match_citation (replace_scan rest ?old ?new)"
          by (simp only: re_findall_marker [OF assms(2)])
        with ih fs True show ?thesis by simp
      next
        case False
        have "replace_scan s ?old ?new = citation_marker e @ replace_scan rest ?old ?new"
          by (subst s) (rule replace_scan_other_marker [OF assms(1) e False])
        then have "re_findall match_citation (replace_scan s ?old ?new)
                     = e # re_findall match_citation (replace_scan rest ?old ?new)"
          by (simp only: re_findall_marker [OF e])
        with ih fs False show ?thesis by simp
      qed
    qed
  qed
qed


declare py_str.simps [simp del]

lemma digit_char_digit: "d < 10 \<Longrightarrow> is_digit (digit_char d)"
  by (simp add: is_digit_def digit_char_def)

lemma digit_val_digit_char: "d < 10 \<Longrightarrow> digit_val (digit_char d) = d"
  by (simp add: digit_val_def digit_char_def)

lemma py_int_snoc: "py_int (xs @ [c]) = 10 * py_int xs + digit_val c"
  by (simp add: py_int_def)

lemma py_str_digits: "is_digits (py_str n)"
proof (induction n rule: py_str.induct)
  case (1 n)
  show ?case
  proof (cases "n < 10")
    case True
    then show ?thesis by (subst py_str.simps) (simp add: is_digits_def digit_char_digit)
  next
    case False
    with 1 have "is_digits (py_str (n div 10))" by simp
    moreover have "is_digit (digit_char (n mod 10))" by (simp add: digit_char_digit)
    ultimately show ?thesis using False
      by (subst py_str.simps) (simp add: is_digits_def)
  qed
qed

lemma py_int_py_str: "py_int (py_str n) = n"
proof (induction n rule: py_str.induct)
  case (1 n)
  show ?case
  proof (cases "n < 10")
    case True
    then show ?thesis
      by (subst py_str.simps) (simp add: py_int_def digit_val_digit_char)
  next
    case False
    with 1 have "py_int (py_str (n div 10)) = n div 10" by simp
    then show ?thesis using False
      by (subst py_str.simps) (simp add: py_int_snoc digit_val_digit_char)
  qed
qed

lemma repair_step_findall:
  assumes "is_digits c"
  shows "re_findall match_citation (repair_step m t c)
           = map (\<lambda>x. if x = c \<and> py_int x > m then py_str m else x) (re_findall match_citation t)"
proof (cases "py_int c > m")
  case True
  have "citation_marker c \<noteq> []" by (simp add: citation_marker_def)
  then have "repair_step m t c = replace_scan t (citation_marker c) (citation_marker (py_str m))"
    using True by (simp add: repair_step_def py_replace_def)
  then show ?thesis
    using re_findall_replace_scan [OF assms py_str_digits, of t m] True
    by (auto intro: map_cong)
next
  case False
  then have "(\<lambda>x. if x = c \<and> py_int x > m then py_str m else x) = (\<lambda>x. x)"
    by auto
  then show ?thesis using False by (simp add: repair_step_def)
qed

lemma repair_fold_findall:
  "(\<forall>c \<in> set cs. is_digits c) \<Longrightarrow>
     re_findall match_citation (foldl (repair_step m) t cs)
       = map (\<lambda>x. if x \<in> set cs \<and> py_int x > m then py_str m else x)
           (re_findall match_citation t)"
proof (induction cs arbitrary: t)
  case Nil
  then show ?case by simp
next
  case (Cons c cs)
  have "re_findall match_citation (foldl (repair_step m) t (c # cs))
          = map (\<lambda>x. if x \<in> set cs \<and> py_int x > m then py_str m else x)
              (re_findall match_citation (repair_step m t c))"
    using Cons by simp
  also have "\<dots> = map (\<lambda>x. if x \<in> set cs \<and> py_int x > m then py_str m else x)
              (map (\<lambda>x. if x = c \<and> py_int x > m then py_str m else x)
                 (re_findall match_citation t))"
    using repair_step_findall [of c m t] Cons.prems by simp
  also have "\<dots> = map (\<lambda>x. if x \<in> set (c # cs) \<and> py_int x > m then py_str m else x)
                     (re_findall match_citation t)"
    by (auto simp: py_int_py_str)
  finally show ?case .
qed

lemma citation_safety_check_findall:
  "re_findall match_citation (citation_safety_check answer m)
     = map (\<lambda>c. if py_int c > m then py_str m else c) (re_findall match_citation answer)"
proof -
  have "\<forall>c \<in> set (re_findall match_citation answer). is_digits c"
    using re_findall_digits by blast
  from repair_fold_findall [OF this, of m answer]
  show ?thesis by (auto simp: citation_safety_check_def intro: map_cong)
qed

section \<open>Query router: the claims\<close>

text \<open>
  C4. \<open>classify_query\<close> evaluates its five intent rules in the fixed order SMALL-TALK,
  CAPABILITY, GRAPH, FAQ, SEMANTIC, the first rule that holds of the lowercased, trimmed
  query giving the class. The query "Which investors funded fintech startups in India?"
  is classified GRAPH and the query "What is the maximum grant amount under SISFS?" is
  classified FAQ.
\<close>

theorem classify_query_first_match:
  "classify_query query = first_match intent_rules (py_strip (py_lower query))
   \<and> classify_query ''Which investors funded fintech startups in India?'' = GRAPH
   \<and> classify_query ''What is the maximum grant amount under SISFS?'' = FAQ"
proof -
  have "classify_query query = first_match intent_rules (py_strip (py_lower query))"
    by (simp add: classify_query_def intent_rules_def Let_def small_talk_rule_def
        capability_rule_def graph_rule_def faq_rule_def list_ex_contains contains_sublist)
  moreover have "classify_query ''Which investors funded fintech startups in India?'' = GRAPH"
    by code_simp
  moreover have "classify_query ''What is the maximum grant amount under SISFS?'' = FAQ"
    by code_simp
  ultimately show ?thesis by blast
qed

text \<open>
  C9. The query "which sectors" holds the GRAPH keyword "which sectors" and is classified
  SMALL-TALK all the same, because "which" holds the trigger "hi". In general every query
  whose lowercased, trimmed text (the text the router inspects and measures) is shorter
  than 30 characters and holds one of the chitchat triggers, "hi", "ok" and "hey" among
  them, anywhere, also inside another word, is classified SMALL-TALK, whatever GRAPH or
  FAQ keyword it holds.
\<close>

theorem classify_query_substring_preempts:
  "classify_query ''which sectors'' = SMALL_TALK
   \<and> list_ex (contains (py_strip (py_lower ''which sectors''))) graph_keywords
   \<and> ''hi'' \<in> set chitchat_triggers \<and> ''ok'' \<in> set chitchat_triggers
   \<and> ''hey'' \<in> set chitchat_triggers
   \<and> (length (py_strip (py_lower query)) < 30
        \<and> t \<in> set chitchat_triggers
        \<and> contains (py_strip (py_lower query)) t
      \<longrightarrow> classify_query query = SMALL_TALK)"
proof -
  have a: "classify_query ''which sectors'' = SMALL_TALK" by code_simp
  have b: "list_ex (contains (py_strip (py_lower ''which sectors''))) graph_keywords"
    by code_simp
  have c: "''hi'' \<in> set chitchat_triggers \<and> ''ok'' \<in> set chitchat_triggers
           \<and> ''hey'' \<in> set chitchat_triggers"
    by (simp add: chitchat_triggers_def)
  from a b c short_trigger_small_talk [of query t] show ?thesis by blast
qed

theorem classify_query_substring_preempts_witness:
  "py_strip (py_lower ''Eligible things'') = ''eligible things''
   \<and> length (py_strip (py_lower ''Eligible things'')) < 30
   \<and> ''hi'' \<in> set chitchat_triggers
   \<and> contains (py_strip (py_lower ''Eligible things'')) ''hi''
   \<and> list_ex (contains (py_strip (py_lower ''Eligible things''))) faq_keywords
   \<and> classify_query ''Eligible things'' = SMALL_TALK"
proof -
  have n: "py_strip (py_lower ''Eligible things'') = ''eligible things''"
    by code_simp
  have h: "length (py_strip (py_lower ''Eligible things'')) < 30
           \<and> ''hi'' \<in> set chitchat_triggers
           \<and> contains (py_strip (py_lower ''Eligible things'')) ''hi''"
    unfolding n by (simp add: chitchat_triggers_def)
  have k: "list_ex (contains (py_strip (py_lower ''Eligible things''))) faq_keywords"
    by code_simp
  from classify_query_substring_preempts [of "''Eligible things''" "''hi''"] n h k
  show ?thesis by blast
qed

section \<open>Answer verifier: the claims\<close>

text \<open>
  C1. \<open>verify_answer\<close> reports \<open>verified = False\<close> with the reason "No sources provided"
  when the source list is empty, and \<open>verified = True\<close> for every non-empty source list,
  whatever the answer and the source type are: its result does not depend on the answer,
  so no layer check on the answer has any part in it. An answer that fails both the
  numeric and the citation layer against three sources is reported verified.
\<close>

theorem verify_answer_verified_iff_sources:
  "verify_answer answer [] source_type = \<lparr>verified = False, reason = ''No sources provided''\<rparr>
   \<and> verified (verify_answer answer sources source_type) = (sources \<noteq> [])
   \<and> verify_answer answer sources source_type = verify_answer answer' sources source_type'
   \<and> \<not> num_passed (verify_numeric ''Up to Rs. 75 Lakhs [Source 4].'' three_sources)
   \<and> \<not> cit_passed (verify_citations ''Up to Rs. 75 Lakhs [Source 4].'' three_sources)
   \<and> verified (verify_answer ''Up to Rs. 75 Lakhs [Source 4].'' three_sources ''RAG'')"
proof -
  have a: "\<not> num_passed (verify_numeric ''Up to Rs. 75 Lakhs [Source 4].'' three_sources)"
    by code_simp
  have b: "\<not> cit_passed (verify_citations ''Up to Rs. 75 Lakhs [Source 4].'' three_sources)"
    by code_simp
  have c: "three_sources \<noteq> []"
    by (simp add: three_sources_def)
  from a b c show ?thesis by (simp add: verify_answer_def Let_def)
qed

text \<open>
  C5. \<open>verify_citations\<close> passes if and only if every citation marker \<open>[Source N]\<close>
  extracted from the answer has \<open>N\<close> between 1 and the number of sources; the issue list
  has one entry for each extracted citation outside that range, in their order; and an
  answer without citation markers passes whatever the sources are.
\<close>

theorem verify_citations_range:
  "(cit_passed (verify_citations answer sources) \<longleftrightarrow>
      (\<forall>c \<in> set (re_findall match_citation answer). 1 \<le> py_int c \<and> py_int c \<le> length sources))
   \<and> cit_issues (verify_citations answer sources) =
       map (citation_issue (length sources))
         (filter (\<lambda>c. length sources < py_int c \<or> py_int c < 1)
            (re_findall match_citation answer))
   \<and> (re_findall match_citation answer = [] \<longrightarrow>
        cit_passed (verify_citations answer sources)
        \<and> cit_issues (verify_citations answer sources) = [])"
proof -
  have "re_findall match_citation answer = [] \<longrightarrow>
        cit_passed (verify_citations answer sources)
        \<and> cit_issues (verify_citations answer sources) = []"
    by (simp add: verify_citations_def)
  then show ?thesis
    using verify_citations_passed_iff [of answer sources]
      verify_citations_issues [of answer sources] by blast
qed

theorem verify_citations_range_witness:
  "re_findall match_citation ''Grants [Source 1] and loans [Source 4].'' = [''1'', ''4'']
   \<and> \<not> cit_passed (verify_citations ''Grants [Source 1] and loans [Source 4].'' three_sources)
   \<and> cit_issues (verify_citations ''Grants [Source 1] and loans [Source 4].'' three_sources)
       = [''Invalid citation [Source 4] - only 3 sources available'']
   \<and> re_findall match_citation ''No marker here.'' = []
   \<and> cit_passed (verify_citations ''No marker here.'' three_sources)"
proof -
  have c: "re_findall match_citation ''Grants [Source 1] and loans [Source 4].'' = [''1'', ''4'']"
    by code_simp
  have n: "length three_sources = 3"
    by (simp add: three_sources_def)
  have i: "py_int ''1'' = 1 \<and> py_int ''4'' = 4"
    by code_simp
  have m: "citation_issue 3 ''4'' = ''Invalid citation [Source 4] - only 3 sources available''"
    by code_simp
  have e: "re_findall match_citation ''No marker here.'' = []"
    by code_simp
  have p: "\<not> cit_passed (verify_citations ''Grants [Source 1] and loans [Source 4].'' three_sources)
       \<and> cit_issues (verify_citations ''Grants [Source 1] and loans [Source 4].'' three_sources)
           = [''Invalid citation [Source 4] - only 3 sources available'']"
    using verify_citations_range [of "''Grants [Source 1] and loans [Source 4].''" three_sources]
    by (simp add: c n i m del: re_findall.simps)
  have q: "cit_passed (verify_citations ''No marker here.'' three_sources)"
    using verify_citations_range [of "''No marker here.''" three_sources]
    by (simp add: e del: re_findall.simps)
  from c e p q show ?thesis by blast
qed



text \<open>
  C10. \<open>verify_numeric\<close> compares only the digit string of an extracted amount, by
  substring containment, and never its unit: an answer passes as soon as the digits of
  each of its amounts occur somewhere in the joined source text or in a canonical amount
  string, and two answers with the same digit strings pass or fail together whatever
  their units. "Rs. 20 Crores" passes against a source that mentions only "Rs. 20 Lakhs",
  and "Rs. 20 Lakhs" passes against a source that holds only the year "2020".
\<close>

theorem verify_numeric_ignores_unit:
  "((\<forall>a \<in> set (re_findall match_amount answer).
        sublist (fst a) (sources_text sources)
        \<or> (\<exists>canon \<in> set (source_canonicals sources). sublist (fst a) canon))
      \<longrightarrow> num_passed (verify_numeric answer sources))
   \<and> (map fst (re_findall match_amount answer) = map fst (re_findall match_amount answer')
      \<longrightarrow> num_passed (verify_numeric answer sources)
          = num_passed (verify_numeric answer' sources))
   \<and> re_findall match_amount ''Grant of up to Rs. 20 Lakhs for validation.'' = [(''20'', ''Lakhs'')]
   \<and> num_passed (verify_numeric ''The maximum grant is Rs. 20 Crores [Source 1].''
        [source_of_text ''Grant of up to Rs. 20 Lakhs for validation.'' (Some ''Rs. 20 Lakhs'')])
   \<and> num_passed (verify_numeric ''The maximum grant is Rs. 20 Lakhs [Source 1].''
        [source_of_text ''The scheme was launched in 2020.'' None])"
proof -
  let ?found = "amount_found (source_canonicals sources) (sources_text sources)"
  have a: "(\<forall>a \<in> set (re_findall match_amount answer).
        sublist (fst a) (sources_text sources)
        \<or> (\<exists>canon \<in> set (source_canonicals sources). sublist (fst a) canon))
      \<longrightarrow> num_passed (verify_numeric answer sources)"
    by (auto simp: verify_numeric_passed_iff amount_found_sublist)
  have "num_passed (verify_numeric x sources)
          \<longleftrightarrow> (\<forall>d \<in> set (map fst (re_findall match_amount x)). ?found d)" for x
    by (simp add: verify_numeric_passed_iff)
  then have b: "map fst (re_findall match_amount answer) = map fst (re_findall match_amount answer')
      \<longrightarrow> num_passed (verify_numeric answer sources) = num_passed (verify_numeric answer' sources)"
    by (simp del: set_map)
  have c: "re_findall match_amount ''Grant of up to Rs. 20 Lakhs for validation.''
             = [(''20'', ''Lakhs'')]"
    by code_simp
  have d: "num_passed (verify_numeric ''The maximum grant is Rs. 20 Crores [Source 1].''
        [source_of_text ''Grant of up to Rs. 20 Lakhs for validation.'' (Some ''Rs. 20 Lakhs'')])"
    by code_simp
  have e: "num_passed (verify_numeric ''The maximum grant is Rs. 20 Lakhs [Source 1].''
        [source_of_text ''The scheme was launched in 2020.'' None])"
    by code_simp
  from a b c d e show ?thesis by blast
qed

theorem verify_numeric_ignores_unit_witness:
  "map fst (re_findall match_amount ''Rs. 5 Lakhs'') = map fst (re_findall match_amount ''Rs. 5 Crores'')
   \<and> sublist ''5'' (sources_text [source_of_text ''Section 5 of the policy.'' None])
   \<and> num_passed (verify_numeric ''Rs. 5 Lakhs'' [source_of_text ''Section 5 of the policy.'' None])
   \<and> num_passed (verify_numeric ''Rs. 5 Crores'' [source_of_text ''Section 5 of the policy.'' None])"
proof -
  let ?s = "[source_of_text ''Section 5 of the policy.'' None]"
  have a: "re_findall match_amount ''Rs. 5 Lakhs'' = [(''5'', ''Lakhs'')]" by code_simp
  have b: "re_findall match_amount ''Rs. 5 Crores'' = [(''5'', ''Crores'')]" by code_simp
  have "contains (sources_text ?s) ''5''" by code_simp
  then have c: "sublist ''5'' (sources_text ?s)" by (simp add: contains_sublist)
  have p: "num_passed (verify_numeric ''Rs. 5 Lakhs'' ?s)"
    using verify_numeric_ignores_unit [of "''Rs. 5 Lakhs''" ?s "''Rs. 5 Crores''"] c
    by (simp add: a b del: re_findall.simps)
  have q: "num_passed (verify_numeric ''Rs. 5 Lakhs'' ?s) = num_passed (verify_numeric ''Rs. 5 Crores'' ?s)"
    using verify_numeric_ignores_unit [of "''Rs. 5 Lakhs''" ?s "''Rs. 5 Crores''"]
    by (simp add: a b del: re_findall.simps)
  from a b c p q show ?thesis by simp
qed


section \<open>Retrieval: the claims\<close>

text \<open>
  C3. As stated the claim fails: \<open>hybrid_search\<close> adds up the contribution of every
  candidate that is resolved to a chunk id. With the id list \<open>same_ids\<close> the id "a1" is
  in both candidate lists, with the dense scores 0.9 and 0.8 and the sparse scores 5 and 0,
  and its fused score 1.42 is \<open>0.6 * d + 0.4 * (s / 5)\<close> for none of them. With the padded
  dense list the label \<open>-1\<close> is resolved to the last chunk, so the fused score of "b2",
  in both lists with the dense score 0.8 and the sparse score 5, is negative and not 0.88.
\<close>

theorem hybrid_search_fusion_counterexample:
  "fused_scores two_dense two_bm25 same_ids 1 = Inr [(''a1'', 1.42)]
   \<and> dense_scores_of same_ids (two_dense (1 * 2)) ''a1'' = [0.9, 0.8]
   \<and> sparse_scores_of same_ids two_bm25 (bm25_top_indices two_bm25 1) ''a1'' = [5, 0]
   \<and> max_bm25 two_bm25 = Inr 5
   \<and> (1.42 :: real) \<noteq> 0.6 * 0.9 + 0.4 * (5 / 5)
   \<and> (1.42 :: real) \<noteq> 0.6 * 0.9 + 0.4 * (0 / 5)
   \<and> (1.42 :: real) \<noteq> 0.6 * 0.8 + 0.4 * (5 / 5)
   \<and> (1.42 :: real) \<noteq> 0.6 * 0.8 + 0.4 * (0 / 5)
   \<and> map_sum id (\<lambda>results. dict_get results ''b2'' < 0)
         (fused_scores two_dense_padded two_bm25 (map chunk_id two_chunks) 2) = Inr True
   \<and> hd (dense_scores_of (map chunk_id two_chunks) (two_dense_padded (2 * 2)) ''b2'') = 0.8
   \<and> sparse_scores_of (map chunk_id two_chunks) two_bm25 (bm25_top_indices two_bm25 2) ''b2''
       = [5]
   \<and> \<not> (0.6 * 0.8 + 0.4 * (5 / 5) < (0 :: real))"
proof -
  have a: "fused_scores two_dense two_bm25 same_ids 1 = Inr [(''a1'', 1.42)]"
    by code_simp
  have b: "dense_scores_of same_ids (two_dense (1 * 2)) ''a1'' = [0.9, 0.8]"
    by code_simp
  have c: "sparse_scores_of same_ids two_bm25 (bm25_top_indices two_bm25 1) ''a1'' = [5, 0]"
    by code_simp
  have d: "max_bm25 two_bm25 = Inr 5"
    by code_simp
  have e: "map_sum id (\<lambda>results. dict_get results ''b2'' < 0)
             (fused_scores two_dense_padded two_bm25 (map chunk_id two_chunks) 2) = Inr True"
    by code_simp
  have f: "hd (dense_scores_of (map chunk_id two_chunks) (two_dense_padded (2 * 2)) ''b2'')
             = 0.8"
    by code_simp
  have g: "sparse_scores_of (map chunk_id two_chunks) two_bm25 (bm25_top_indices two_bm25 2)
             ''b2'' = [5]"
    by code_simp
  from a b c d e f g show ?thesis by simp
qed

text \<open>
  C3, amended. In \<open>hybrid_search\<close> the normaliser of the sparse scores is their maximum
  when that is positive and 1 otherwise, so it is never zero. The fused score of a chunk
  id is the sum of \<open>0.6 * d\<close> over the dense candidates resolved to the id and of
  \<open>0.4 * (s / max)\<close> over the sparse candidates resolved to it, and an id that no
  candidate is resolved to has no score. So for an id with exactly one dense candidate of
  score \<open>d\<close> and exactly one sparse candidate of score \<open>s\<close> the fused score is
  \<open>0.6 * d + 0.4 * (s / max)\<close>, and for an id with one candidate in one of the two
  lists and none in the other the missing term is 0. Every result that \<open>hybrid_search\<close>
  returns carries the fused score of its chunk id.
\<close>

theorem hybrid_search_fusion_score:
  assumes "fused_scores search bm25_scores chunk_ids top_k = Inr results"
  defines "mx \<equiv> (if 0 < Max (set bm25_scores) then Max (set bm25_scores) else 1)"
  defines "ds \<equiv> dense_scores_of chunk_ids (search (top_k * 2))"
  defines "ss \<equiv> sparse_scores_of chunk_ids bm25_scores (bm25_top_indices bm25_scores top_k)"
  shows "max_bm25 bm25_scores = Inr mx \<and> 0 < mx
    \<and> (ds c \<noteq> [] \<or> ss c \<noteq> [] \<longrightarrow>
         map_of results c
           = Some (sum_list (map (\<lambda>d. d * 0.6) (ds c))
                   + sum_list (map (\<lambda>s. s / mx * 0.4) (ss c))))
    \<and> (ds c = [] \<and> ss c = [] \<longrightarrow> map_of results c = None)
    \<and> (ds c = [d] \<and> ss c = [s] \<longrightarrow> map_of results c = Some (0.6 * d + 0.4 * (s / mx)))
    \<and> (ds c = [d] \<and> ss c = [] \<longrightarrow> map_of results c = Some (0.6 * d + 0))
    \<and> (ds c = [] \<and> ss c = [s] \<longrightarrow> map_of results c = Some (0 + 0.4 * (s / mx)))
    \<and> (hybrid_search search bm25_scores chunk_ids chunks top_k = Inr out \<and> r \<in> set out
        \<longrightarrow> map_of results (chunk_id (res_chunk r)) = Some (res_score r))"
proof -
  note f = fused_scores_get [OF assms(1), folded mx_def ds_def ss_def]
  have pos: "0 < mx" by (simp add: mx_def)
  have sums: "map_of results c
           = Some (sum_list (map (\<lambda>d. d * 0.6) (ds c))
                   + sum_list (map (\<lambda>s. s / mx * 0.4) (ss c)))"
    if "ds c \<noteq> [] \<or> ss c \<noteq> []"
    using f(2) [of c] f(3) [of c] that map_of_dict_get [of c results] by simp
  have none: "map_of results c = None" if "ds c = []" "ss c = []"
    using f(3) [of c] that by (simp add: map_of_eq_None_iff)
  have both: "map_of results c = Some (0.6 * d + 0.4 * (s / mx))" if "ds c = [d]" "ss c = [s]"
    using f(2) [of c] f(3) [of c] that map_of_dict_get [of c results] by simp
  have dense: "map_of results c = Some (0.6 * d + 0)" if "ds c = [d]" "ss c = []"
    using f(2) [of c] f(3) [of c] that map_of_dict_get [of c results] by simp
  have sparse: "map_of results c = Some (0 + 0.4 * (s / mx))" if "ds c = []" "ss c = [s]"
    using f(2) [of c] f(3) [of c] that map_of_dict_get [of c results] by simp
  have out: "map_of results (chunk_id (res_chunk r)) = Some (res_score r)"
    if h: "hybrid_search search bm25_scores chunk_ids chunks top_k = Inr out" and r: "r \<in> set out"
  proof -
    from h assms(1)
    have "lookup_results (chunk_lookup chunks) (sorted_results results top_k) = Inr out"
      by (simp add: hybrid_search_def)
    from lookup_results_mem [OF this r] obtain cid
      where mem: "(cid, res_score r) \<in> set (sorted_results results top_k)"
        and lk: "chunk_lookup chunks cid = Some (res_chunk r)" by blast
    from mem have "(cid, res_score r) \<in> set results"
      by (auto simp: sorted_results_def dest: in_set_takeD)
    with f(4) have "map_of results cid = Some (res_score r)" by simp
    with chunk_lookup_id [OF lk] show ?thesis by simp
  qed
  from f(1) pos sums none both dense sparse out show ?thesis by blast
qed

theorem hybrid_search_fusion_score_witness:
  "fused_scores two_dense two_bm25 (map chunk_id two_chunks) 1
     = Inr [(''a1'', 0.54), (''b2'', 0.88)]
   \<and> dense_scores_of (map chunk_id two_chunks) (two_dense (1 * 2)) ''b2'' = [0.8]
   \<and> sparse_scores_of (map chunk_id two_chunks) two_bm25 (bm25_top_indices two_bm25 1) ''b2''
       = [5]
   \<and> max_bm25 two_bm25 = Inr 5
   \<and> map_of [(''a1'', 0.54), (''b2'', 0.88 :: real)] ''b2'' = Some (0.6 * 0.8 + 0.4 * (5 / 5))
   \<and> fused_scores two_dense [0, 0] (map chunk_id two_chunks) 1
       = Inr [(''a1'', 0.54), (''b2'', 0.48)]
   \<and> max_bm25 [0, 0] = Inr 1
   \<and> fused_scores two_dense two_bm25 same_ids 1 = Inr [(''a1'', 1.42)]
   \<and> dense_scores_of same_ids (two_dense (1 * 2)) ''a1'' = [0.9, 0.8]
   \<and> sparse_scores_of same_ids two_bm25 (bm25_top_indices two_bm25 1) ''a1'' = [5, 0]
   \<and> map_of [(''a1'', 1.42 :: real)] ''a1''
       = Some ((0.9 * 0.6 + 0.8 * 0.6) + (5 / 5 * 0.4 + 0 / 5 * 0.4))
   \<and> map_of [(''a1'', 1.42 :: real)] ''b2'' = None"
proof -
  have mx: "Max (set two_bm25) = 5" by (simp add: two_bm25_def)
  have fs: "fused_scores two_dense two_bm25 (map chunk_id two_chunks) 1
              = Inr [(''a1'', 0.54), (''b2'', 0.88)]"
    by code_simp
  have ds: "dense_scores_of (map chunk_id two_chunks) (two_dense (1 * 2)) ''b2'' = [0.8]"
    by code_simp
  have ss: "sparse_scores_of (map chunk_id two_chunks) two_bm25 (bm25_top_indices two_bm25 1)
              ''b2'' = [5]"
    by code_simp
  have fz: "fused_scores two_dense [0, 0] (map chunk_id two_chunks) 1
              = Inr [(''a1'', 0.54), (''b2'', 0.48)]"
    by code_simp
  have fd: "fused_scores two_dense two_bm25 same_ids 1 = Inr [(''a1'', 1.42)]"
    by code_simp
  have dd: "dense_scores_of same_ids (two_dense (1 * 2)) ''a1'' = [0.9, 0.8]"
    by code_simp
  have sd: "sparse_scores_of same_ids two_bm25 (bm25_top_indices two_bm25 1) ''a1'' = [5, 0]"
    by code_simp
  have dn: "dense_scores_of same_ids (two_dense (1 * 2)) ''b2'' = []"
    by code_simp
  have sn: "sparse_scores_of same_ids two_bm25 (bm25_top_indices two_bm25 1) ''b2'' = []"
    by code_simp
  have p: "max_bm25 two_bm25 = Inr 5
           \<and> map_of [(''a1'', 0.54), (''b2'', 0.88 :: real)] ''b2''
               = Some (0.6 * 0.8 + 0.4 * (5 / 5))"
    using hybrid_search_fusion_score [OF fs, of "''b2''" "0.8" 5] ds ss
    by (simp add: mx)
  have q: "max_bm25 [0, 0] = Inr 1"
    using hybrid_search_fusion_score [OF fz] by simp
  have u: "map_of [(''a1'', 1.42 :: real)] ''a1''
             = Some ((0.9 * 0.6 + 0.8 * 0.6) + (5 / 5 * 0.4 + 0 / 5 * 0.4))"
    using hybrid_search_fusion_score [OF fd, of "''a1''"] dd sd
    by (simp add: mx)
  have v: "map_of [(''a1'', 1.42 :: real)] ''b2'' = None"
    using hybrid_search_fusion_score [OF fd, of "''b2''"] dn sn by simp
  from fs ds ss fz fd dd sd p q u v show ?thesis by blast
qed

text \<open>
  C2. As stated the claim fails: for the two-chunk store, a dense ranking that puts the
  first chunk first and BM25 scores that favour the second, \<open>retrieve_documents\<close> with
  \<open>k = 1\<close> returns the first chunk and \<open>hybrid_search\<close> with \<open>top_k = 1\<close> the second.
\<close>

theorem retrieve_documents_hybrid_counterexample:
  "map_sum id (map src_chunk) (retrieve_documents two_dense two_chunks 1)
     = Inr [store_chunk ''a1'' ''Seed fund guidelines.'']
   \<and> map_sum id (map res_chunk)
        (hybrid_search two_dense two_bm25 (map chunk_id two_chunks) two_chunks 1)
     = Inr [store_chunk ''b2'' ''Investors in fintech.'']
   \<and> map_sum id (map src_chunk) (retrieve_documents two_dense two_chunks 1)
     \<noteq> map_sum id (map res_chunk)
          (hybrid_search two_dense two_bm25 (map chunk_id two_chunks) two_chunks 1)"
proof -
  have a: "map_sum id (map src_chunk) (retrieve_documents two_dense two_chunks 1)
             = Inr [store_chunk ''a1'' ''Seed fund guidelines.'']"
    by code_simp
  have b: "map_sum id (map res_chunk)
             (hybrid_search two_dense two_bm25 (map chunk_id two_chunks) two_chunks 1)
             = Inr [store_chunk ''b2'' ''Investors in fintech.'']"
    by code_simp
  have c: "store_chunk ''a1'' ''Seed fund guidelines.'' \<noteq> store_chunk ''b2'' ''Investors in fintech.''"
    by (simp add: store_chunk_def)
  from a b c show ?thesis by simp
qed

text \<open>
  C2, amended. The evidence list of the SEMANTIC path is the result of
  \<open>retrieve_documents\<close>, which the orchestrator passes to the generator and to the
  verifier: the chunks at the labels that the dense index returns for \<open>k\<close> candidates, in
  the order of the dense index, a label at or above the number of chunks being skipped
  and a negative label counting from the end of the store. No BM25 score takes part. The
  function returns whenever no label is below minus the number of chunks.
\<close>

theorem retrieve_documents_dense_only:
  "(retrieve_documents search chunks k = Inr rs \<longrightarrow>
      map src_chunk rs
        = map (\<lambda>i. chunks ! nat (if i < 0 then int (length chunks) + i else i))
            (filter (\<lambda>i. i < int (length chunks)) (map fst (search k))))
   \<and> ((\<forall>i \<in> set (map fst (search k)). - int (length chunks) \<le> i) \<longrightarrow>
        (\<exists>rs'. retrieve_documents search chunks k = Inr rs'))"
proof -
  have a: "map src_chunk rs
        = map (\<lambda>i. chunks ! nat (if i < 0 then int (length chunks) + i else i))
            (filter (\<lambda>i. i < int (length chunks)) (map fst (search k)))"
    if "retrieve_documents search chunks k = Inr rs"
  proof -
    from that have "collect_documents chunks (map fst (search k)) = Inr rs"
      by (simp add: retrieve_documents_def)
    from collect_documents_chunks [OF this] show ?thesis
      by (simp add: normalized_chunk_chunk comp_def)
  qed
  have b: "\<exists>rs'. retrieve_documents search chunks k = Inr rs'"
    if "\<forall>i \<in> set (map fst (search k)). - int (length chunks) \<le> i"
    using collect_documents_returns [OF that] by (simp add: retrieve_documents_def)
  from a b show ?thesis by blast
qed

theorem retrieve_documents_dense_only_witness:
  "retrieve_documents two_dense two_chunks 2 = Inr (map normalized_chunk two_chunks)
   \<and> map fst (two_dense 2) = [0, 1]
   \<and> - int (length two_chunks) \<le> 0 \<and> - int (length two_chunks) \<le> 1
   \<and> map src_chunk (map normalized_chunk two_chunks) = two_chunks"
proof -
  have r: "retrieve_documents two_dense two_chunks 2 = Inr (map normalized_chunk two_chunks)"
    by code_simp
  have l: "map fst (two_dense 2) = [0, 1]"
    by code_simp
  have n: "length two_chunks = 2"
    by (simp add: two_chunks_def)
  have c: "map src_chunk (map normalized_chunk two_chunks) = two_chunks"
    using retrieve_documents_dense_only
      [of two_dense two_chunks 2 "map normalized_chunk two_chunks"] r
    by (simp add: l n two_chunks_def)
  from r l c show ?thesis by (simp add: n)
qed




section \<open>Citation repair: the claim\<close>

text \<open>
  C6. The citation safety check replaces every citation marker \<open>[Source N]\<close> whose
  \<open>N\<close> is greater than the number \<open>m\<close> of sources by \<open>[Source m]\<close> and leaves the
  other markers as they are: the citations of the repaired answer are those of the
  answer, in their order, each one above \<open>m\<close> replaced by \<open>m\<close>. With 3 sources, an answer
  holding \<open>[Source 1]\<close> and \<open>[Source 4]\<close> is repaired so that \<open>[Source 4]\<close> becomes
  \<open>[Source 3]\<close> and \<open>[Source 1]\<close> stays.
\<close>

theorem citation_safety_check_clamps:
  "re_findall match_citation (citation_safety_check answer m)
     = map (\<lambda>c. if py_int c > m then py_str m else c) (re_findall match_citation answer)
   \<and> py_int (py_str m) = m
   \<and> list_all (\<lambda>c. py_int c \<le> m) (re_findall match_citation (citation_safety_check answer m))
   \<and> citation_safety_check ''Grants [Source 1] and loans [Source 4].'' 3
       = ''Grants [Source 1] and loans [Source 3].''"
proof -
  have a: "re_findall match_citation (citation_safety_check answer m)
     = map (\<lambda>c. if py_int c > m then py_str m else c) (re_findall match_citation answer)"
    by (rule citation_safety_check_findall)
  have b: "list_all (\<lambda>c. py_int c \<le> m)
             (re_findall match_citation (citation_safety_check answer m))"
    unfolding a by (auto simp: list_all_iff py_int_py_str)
  have c: "citation_safety_check ''Grants [Source 1] and loans [Source 4].'' 3
             = ''Grants [Source 1] and loans [Source 3].''"
    by code_simp
  from a b c py_int_py_str [of m] show ?thesis by blast
qed

end
